theory Spec2Isabelle
  imports Main "HOL-Library.Sublist"
begin

section \<open>Strings and the string built-ins the controller calls\<close>

text \<open>
  A string is a list of code units. The model covers the strings whose code units are
  below 256 (the Latin-1 range), one \<^typ>\<open>char\<close> per code unit; on these the three
  built-ins \<open>String.prototype.trim\<close>, \<open>String.prototype.toLowerCase\<close> and
  \<open>encodeURIComponent\<close> are total (no lone surrogate exists) and are written out below.
\<close>

definition code_unit :: "char \<Rightarrow> nat" where
  "code_unit c = of_char c"

text \<open>White space and line terminators of the language that lie in the range.\<close>

definition is_space :: "char \<Rightarrow> bool" where
  "is_space c = (let n = code_unit c in (9 \<le> n \<and> n \<le> 13) \<or> n = 32 \<or> n = 160)"

definition trim :: "string \<Rightarrow> string" where
  "trim s = rev (dropWhile is_space (rev (dropWhile is_space s)))"

text \<open>The upper-case letters of the range are A..Z and U+00C0..U+00DE without U+00D7;
  each has its lower-case partner 32 code units later.\<close>

definition lower_char :: "char \<Rightarrow> char" where
  "lower_char c =
     (let n = code_unit c
      in if (65 \<le> n \<and> n \<le> 90) \<or> (192 \<le> n \<and> n \<le> 214) \<or> (216 \<le> n \<and> n \<le> 222)
         then char_of (n + 32) else c)"

definition toLowerCase :: "string \<Rightarrow> string" where
  "toLowerCase s = map lower_char s"

text \<open>\<open>encodeURIComponent\<close>: the unreserved characters stay, every other code point is
  written as the \<open>%XX\<close> escapes of its UTF-8 bytes (one byte below 128, two bytes from
  128 to 255), with upper-case hexadecimal digits.\<close>

definition unreserved :: "char \<Rightarrow> bool" where
  "unreserved c =
     (let n = code_unit c
      in (65 \<le> n \<and> n \<le> 90) \<or> (97 \<le> n \<and> n \<le> 122) \<or> (48 \<le> n \<and> n \<le> 57)
         \<or> c \<in> set ''-_.!~*'()'')"

definition hex_digit :: "nat \<Rightarrow> char" where
  "hex_digit d = (if d < 10 then char_of (48 + d) else char_of (55 + d))"

definition percent_byte :: "nat \<Rightarrow> string" where
  "percent_byte b = [CHR ''%'', hex_digit (b div 16), hex_digit (b mod 16)]"

definition utf8_bytes :: "nat \<Rightarrow> nat list" where
  "utf8_bytes n = (if n < 128 then [n] else [192 + n div 64, 128 + n mod 64])"

definition encode_char :: "char \<Rightarrow> string" where
  "encode_char c =
     (if unreserved c then [c] else concat (map percent_byte (utf8_bytes (code_unit c))))"

definition encodeURIComponent :: "string \<Rightarrow> string" where
  "encodeURIComponent s = concat (map encode_char s)"

section \<open>Data model (the interfaces of App.tsx)\<close>

record Phonetic =
  p_text :: "string option"
  p_audio :: "string option"

record Definition =
  d_definition :: string
  d_example :: "string option"
  d_synonyms :: "string list option"
  d_antonyms :: "string list option"

record Meaning =
  partOfSpeech :: string
  definitions :: "Definition list"
  m_synonyms :: "string list option"
  m_antonyms :: "string list option"

record DictionaryEntry =
  e_word :: string
  phonetic :: "string option"
  phonetics :: "Phonetic list"
  meanings :: "Meaning list"
  sourceUrls :: "string list"

record HistoryItem =
  h_word :: string
  h_timestamp :: nat

record FavoriteItem =
  f_word :: string
  f_definition :: string
  f_timestamp :: nat

datatype tab = MainTab | HistoryTab | FavoritesTab

text \<open>The component state: one field per \<open>useState\<close> cell of \<open>App\<close>.\<close>

record app =
  input_value :: string
  data :: "DictionaryEntry list option"
  err :: "string option"
  loading :: bool
  history :: "HistoryItem list"
  favorites :: "FavoriteItem list"
  mobileTab :: tab
  selectedMeaningIndex :: nat
  isDarkMode :: bool
  copiedText :: "string option"
  autoPlayAudio :: bool

definition initial_app :: app where
  "initial_app =
     \<lparr>input_value = [], data = None, err = None, loading = False, history = [],
      favorites = [], mobileTab = MainTab, selectedMeaningIndex = 0, isDarkMode = False,
      copiedText = None, autoPlayAudio = False\<rparr>"

section \<open>The search controller\<close>

datatype js_error = TypeError | SyntaxError

text \<open>What a call of \<open>fetch\<close> comes to: the promise rejects (transport error), or it
  resolves with a response whose \<open>ok\<close> flag is given and whose \<open>json()\<close> either
  yields the entry list or rejects (\<open>None\<close>).\<close>

datatype response = Response (ok: bool) (json: "DictionaryEntry list option")

datatype fetch_outcome = Rejected | Resolved response

text \<open>What the controller does to its collaborators: the request it sends, the error it
  logs, the timer it sets for the pronunciation (delay in milliseconds, and the audio
  source \<open>playAudio\<close> will pick).\<close>

datatype effect = Fetch string | ConsoleError | SetTimeout nat "string option"

definition api_url :: string where
  "api_url = ''https://api.dictionaryapi.dev/api/v2/entries/en/''"

text \<open>The request URL of the first variant of \<open>searchWord\<close> (line 112) and of the second
  (line 813).\<close>

definition fetch_url :: "string \<Rightarrow> string" where
  "fetch_url word = api_url @ encodeURIComponent (toLowerCase word)"

definition fetch_url2 :: "string \<Rightarrow> string" where
  "fetch_url2 word = api_url @ toLowerCase word"

text \<open>\<open>playAudio\<close>: the audio source that is played, if any.\<close>

definition playAudio :: "DictionaryEntry list option \<Rightarrow> DictionaryEntry list option \<Rightarrow> string option" where
  "playAudio entryData current =
     (let dataToUse = (case entryData of Some d \<Rightarrow> Some d | None \<Rightarrow> current)
      in case dataToUse of
           None \<Rightarrow> None
         | Some [] \<Rightarrow> None
         | Some (e # _) \<Rightarrow>
             (case find (\<lambda>p. case p_audio p of None \<Rightarrow> False | Some a \<Rightarrow> a \<noteq> []) (phonetics e) of
                None \<Rightarrow> None
              | Some p \<Rightarrow> p_audio p))"

text \<open>The updater passed to \<open>setHistory\<close> (lines 128 to 133).\<close>

definition history_updater :: "string \<Rightarrow> nat \<Rightarrow> HistoryItem list \<Rightarrow> HistoryItem list" where
  "history_updater word now prev =
     (let newHistoryItem = \<lparr>h_word = toLowerCase word, h_timestamp = now\<rparr>;
          filtered = filter (\<lambda>item. h_word item \<noteq> toLowerCase word) prev
      in take 50 (newHistoryItem # filtered))"

definition error_message :: "string \<Rightarrow> string" where
  "error_message word = [CHR 0x22] @ word @ [CHR 0x22] @ '' not found in dictionary''"

text \<open>\<open>searchWord\<close> up to its \<open>await\<close>: \<open>None\<close> is the early return of the guard, otherwise
  the state after the three setters and the URL handed to \<open>fetch\<close>.\<close>

definition searchWord_begin :: "(string \<Rightarrow> string) \<Rightarrow> string \<Rightarrow> app \<Rightarrow> (app \<times> string) option" where
  "searchWord_begin url_of word s =
     (if trim word = [] then None
      else Some (s\<lparr>loading := True, err := None, mobileTab := MainTab\<rparr>, url_of word))"

text \<open>\<open>searchWord\<close> from the point where the awaited \<open>fetch\<close> settles: the rest of the
  \<open>try\<close> block, the \<open>catch\<close> block and the \<open>finally\<close> block. \<open>autoplay\<close> is the value
  of \<open>autoPlayAudio\<close> the closure was created with.\<close>

definition searchWord_resume :: "string \<Rightarrow> nat \<Rightarrow> bool \<Rightarrow> fetch_outcome \<Rightarrow> app \<Rightarrow> app \<times> effect list" where
  "searchWord_resume word now autoplay outcome s =
     (case outcome of
        Resolved (Response True (Some result)) \<Rightarrow>
          (s\<lparr>data := Some result, selectedMeaningIndex := 0,
             history := history_updater word now (history s), loading := False\<rparr>,
           if autoplay then [SetTimeout 300 (playAudio (Some result) (Some result))] else [])
      | _ \<Rightarrow>
          (s\<lparr>data := None, err := Some (error_message word), loading := False\<rparr>,
           [ConsoleError]))"

text \<open>A whole call of \<open>searchWord\<close> that runs to its end with nothing in between;
  \<open>net\<close> says how the remote service answers each URL, \<open>now\<close> is \<open>Date.now()\<close>.\<close>

definition searchWord_with ::
  "(string \<Rightarrow> string) \<Rightarrow> (string \<Rightarrow> fetch_outcome) \<Rightarrow> nat \<Rightarrow> string \<Rightarrow> app \<Rightarrow> app \<times> effect list" where
  "searchWord_with url_of net now word s =
     (case searchWord_begin url_of word s of
        None \<Rightarrow> (s, [])
      | Some (s1, url) \<Rightarrow>
          (case searchWord_resume word now (autoPlayAudio s) (net url) s1 of
             (s2, effs) \<Rightarrow> (s2, Fetch url # effs)))"

definition searchWord :: "(string \<Rightarrow> fetch_outcome) \<Rightarrow> nat \<Rightarrow> string \<Rightarrow> app \<Rightarrow> app \<times> effect list" where
  "searchWord = searchWord_with fetch_url"

definition searchWord2 :: "(string \<Rightarrow> fetch_outcome) \<Rightarrow> nat \<Rightarrow> string \<Rightarrow> app \<Rightarrow> app \<times> effect list" where
  "searchWord2 = searchWord_with fetch_url2"

section \<open>Favorites\<close>

definition removeFromFavorites :: "string \<Rightarrow> app \<Rightarrow> app" where
  "removeFromFavorites word s = s\<lparr>favorites := filter (\<lambda>f. f_word f \<noteq> word) (favorites s)\<rparr>"

definition isFavorite :: "app \<Rightarrow> bool" where
  "isFavorite s =
     (case data s of
        None \<Rightarrow> False
      | Some [] \<Rightarrow> False
      | Some (e # _) \<Rightarrow> list_ex (\<lambda>f. f_word f = e_word e) (favorites s))"

text \<open>\<open>toggleFavorite\<close>: reading \<open>meanings[0].definitions[0].definition\<close> throws a
  TypeError when \<open>meanings\<close> is empty (\<open>undefined.definitions\<close>) or the first meaning has
  no definition (\<open>undefined.definition\<close>); no setter has run by then.\<close>

definition toggleFavorite :: "nat \<Rightarrow> app \<Rightarrow> js_error + app" where
  "toggleFavorite now s =
     (case data s of
        None \<Rightarrow> Inr s
      | Some [] \<Rightarrow> Inr s
      | Some (e # _) \<Rightarrow>
          if isFavorite s then Inr (removeFromFavorites (e_word e) s)
          else (case meanings e of
                  [] \<Rightarrow> Inl TypeError
                | m # _ \<Rightarrow>
                    (case definitions m of
                       [] \<Rightarrow> Inl TypeError
                     | d # _ \<Rightarrow>
                         Inr (s\<lparr>favorites :=
                                  \<lparr>f_word = e_word e, f_definition = d_definition d,
                                   f_timestamp = now\<rparr> # favorites s\<rparr>))))"

section \<open>Synonyms\<close>

text \<open>A \<open>Set\<close> of strings keeps its elements in insertion order, and \<open>add\<close> of a
  member changes nothing; \<open>Array.from\<close> lists them in that order.\<close>

definition set_add :: "string list \<Rightarrow> string \<Rightarrow> string list" where
  "set_add synonyms syn = (if syn \<in> set synonyms then synonyms else synonyms @ [syn])"

definition add_optional :: "string list \<Rightarrow> string list option \<Rightarrow> string list" where
  "add_optional synonyms l = (case l of None \<Rightarrow> synonyms | Some syns \<Rightarrow> foldl set_add synonyms syns)"

definition add_meaning :: "string list \<Rightarrow> Meaning \<Rightarrow> string list" where
  "add_meaning synonyms meaning =
     foldl (\<lambda>acc def. add_optional acc (d_synonyms def))
       (add_optional synonyms (m_synonyms meaning)) (definitions meaning)"

definition getAllSynonyms :: "app \<Rightarrow> string list" where
  "getAllSynonyms s =
     (case data s of
        None \<Rightarrow> []
      | Some [] \<Rightarrow> []
      | Some (e # _) \<Rightarrow> foldl add_meaning [] (meanings e))"

section \<open>Start-up\<close>

text \<open>A text kept in \<open>localStorage\<close> is modelled by what the start-up effect can see of it:
  it is the empty string (falsy, so never parsed), or \<open>JSON.parse\<close> throws a SyntaxError
  on it, or \<open>JSON.parse\<close> returns a list of records of the collection's type, which the
  text encodes, or \<open>JSON.parse\<close> returns some other value (\<open>null\<close>, a number, a string,
  an object, a list of other things).\<close>

datatype 'a stored = EmptyText | Unparsable | Json 'a | OtherJson


text \<open>What a collection cell holds once its setter has run: a list, or a value that is
  not a list of records. The setter takes what \<open>JSON.parse\<close> returns unchecked.\<close>

datatype 'a cell = Holds 'a | NotAList

text \<open>\<open>if (saved) set(JSON.parse(saved))\<close>: the new content of the cell, or the exception
  \<open>JSON.parse\<close> throws.\<close>

definition parse_if_saved :: "'a stored option \<Rightarrow> 'a \<Rightarrow> js_error + 'a cell" where
  "parse_if_saved saved current =
     (case saved of
        None \<Rightarrow> Inr (Holds current)
      | Some EmptyText \<Rightarrow> Inr (Holds current)
      | Some Unparsable \<Rightarrow> Inl SyntaxError
      | Some (Json v) \<Rightarrow> Inr (Holds v)
      | Some OtherJson \<Rightarrow> Inr NotAList)"




section \<open>Runs of the controller\<close>

text \<open>The successful searches of a session, oldest first, each with its word and its
  \<open>Date.now()\<close>, as the history updater sees them.\<close>

fun record_all :: "(string \<times> nat) list \<Rightarrow> HistoryItem list \<Rightarrow> HistoryItem list" where
  "record_all [] h = h"
| "record_all ((word, now) # rest) h = record_all rest (history_updater word now h)"

text \<open>The operations a user can trigger, each run to its end before the next one starts.
  An exception thrown by a handler leaves the state as it was.\<close>

datatype operation =
    Search string nat fetch_outcome
  | ToggleFavorite nat
  | RemoveFromFavorites string
  | ClearHistory
  | SelectMeaning nat
  | SetValue string
  | CopyToClipboard string
  | CopyExpired
  | SetMobileTab tab
  | ToggleDarkMode
  | SetAutoPlayAudio bool

fun perform :: "operation \<Rightarrow> app \<Rightarrow> app" where
  "perform (Search word now outcome) s = fst (searchWord (\<lambda>url. outcome) now word s)"
| "perform (ToggleFavorite now) s = (case toggleFavorite now s of Inl e \<Rightarrow> s | Inr s' \<Rightarrow> s')"
| "perform (RemoveFromFavorites word) s = removeFromFavorites word s"
| "perform ClearHistory s = s\<lparr>history := []\<rparr>"
| "perform (SelectMeaning i) s = s\<lparr>selectedMeaningIndex := i\<rparr>"
| "perform (SetValue v) s = s\<lparr>input_value := v\<rparr>"
| "perform (CopyToClipboard t) s = s\<lparr>copiedText := Some t\<rparr>"
| "perform CopyExpired s = s\<lparr>copiedText := None\<rparr>"
| "perform (SetMobileTab t) s = s\<lparr>mobileTab := t\<rparr>"
| "perform ToggleDarkMode s = s\<lparr>isDarkMode := \<not> isDarkMode s\<rparr>"
| "perform (SetAutoPlayAudio b) s = s\<lparr>autoPlayAudio := b\<rparr>"

fun perform_all :: "operation list \<Rightarrow> app \<Rightarrow> app" where
  "perform_all [] s = s"
| "perform_all (x # xs) s = perform_all xs (perform x s)"

text \<open>Searches in flight: \<open>searchWord\<close> is asynchronous and nothing cancels a call in
  flight, so between the begin of a call and the moment its own \<open>fetch\<close> settles other
  operations may run, a second call may begin, and other calls may settle. The calls in
  flight are kept with the word and the \<open>autoPlayAudio\<close> flag their closure holds;
  \<open>Settle\<close> of a word that is not in flight is not a step. \<open>Act\<close> is an operation that
  runs to its end at once (for a search: one that settles before anything else happens).\<close>

datatype event = Begin string | Settle string nat fetch_outcome | Act operation

fun step :: "event \<Rightarrow> app \<times> (string \<times> bool) list \<Rightarrow> (app \<times> (string \<times> bool) list) option" where
  "step (Begin word) (s, inflight) =
     (case searchWord_begin fetch_url word s of
        None \<Rightarrow> Some (s, inflight)
      | Some (s1, url) \<Rightarrow> Some (s1, inflight @ [(word, autoPlayAudio s)]))"
| "step (Settle word now outcome) (s, inflight) =
     (case map_of inflight word of
        None \<Rightarrow> None
      | Some autoplay \<Rightarrow>
          Some (fst (searchWord_resume word now autoplay outcome s),
                remove1 (word, autoplay) inflight))"
| "step (Act x) (s, inflight) = Some (perform x s, inflight)"

fun run_events :: "event list \<Rightarrow> app \<times> (string \<times> bool) list \<Rightarrow> (app \<times> (string \<times> bool) list) option" where
  "run_events [] c = Some c"
| "run_events (ev # evs) c = (case step ev c of None \<Rightarrow> None | Some c' \<Rightarrow> run_events evs c')"

text \<open>The lookups that take the success path of \<open>searchWord\<close>.\<close>

definition lookup_succeeds :: "fetch_outcome \<Rightarrow> bool" where
  "lookup_succeeds outcome =
     (case outcome of Resolved (Response True (Some result)) \<Rightarrow> True | _ \<Rightarrow> False)"

text \<open>The events at which a lookup that failed settles, and the events that put a search
  in flight (a search of a blank term returns at the guard).\<close>

fun settles_failed :: "event \<Rightarrow> bool" where
  "settles_failed (Settle word now outcome) = (\<not> lookup_succeeds outcome)"
| "settles_failed (Act (Search word now outcome)) = (trim word \<noteq> [] \<and> \<not> lookup_succeeds outcome)"
| "settles_failed ev = False"

fun starts_search :: "event \<Rightarrow> bool" where
  "starts_search (Begin word) = (trim word \<noteq> [])"
| "starts_search (Act (Search word now outcome)) = (trim word \<noteq> [])"
| "starts_search ev = False"

text \<open>The runs in which no search starts while another one is in flight; every other
  operation may run while a search is in flight.\<close>

fun run_one_at_a_time ::
  "event list \<Rightarrow> app \<times> (string \<times> bool) list \<Rightarrow> (app \<times> (string \<times> bool) list) option" where
  "run_one_at_a_time [] c = Some c"
| "run_one_at_a_time (ev # evs) c =
     (if starts_search ev \<and> snd c \<noteq> [] then None
      else case step ev c of None \<Rightarrow> None | Some c' \<Rightarrow> run_one_at_a_time evs c')"

section \<open>The properties in the words of the specification\<close>

text \<open>The SearchState invariant: entries and error are not both present.\<close>

definition mutually_exclusive :: "app \<Rightarrow> bool" where
  "mutually_exclusive s = (\<not> (data s \<noteq> None \<and> err s \<noteq> None))"

text \<open>What holds of SearchState and the calls in flight as long as searches do not
  overlap: entries and error are not both present, \<open>loading\<close> says whether a call is in
  flight, no error is shown while one is, and at most one is.\<close>

definition search_state_ok :: "app \<times> (string \<times> bool) list \<Rightarrow> bool" where
  "search_state_ok c =
     (mutually_exclusive (fst c) \<and> loading (fst c) = (snd c \<noteq> [])
      \<and> (if snd c = [] then True else err (fst c) = None) \<and> length (snd c) \<le> 1)"

text \<open>The history record a successful search of \<open>word\<close> at time \<open>now\<close> stands for.\<close>

definition item_of :: "string \<times> nat \<Rightarrow> HistoryItem" where
  "item_of p = \<lparr>h_word = toLowerCase (fst p), h_timestamp = snd p\<rparr>"

text \<open>Of a list of records, newest first, keep for each word its newest record.\<close>

primrec newest_per_word :: "HistoryItem list \<Rightarrow> HistoryItem list" where
  "newest_per_word [] = []"
| "newest_per_word (x # xs) = x # filter (\<lambda>y. h_word y \<noteq> h_word x) (newest_per_word xs)"

text \<open>The history invariant: at most 50 records, one record per word, every word stored in
  lower case.\<close>

definition history_ok :: "HistoryItem list \<Rightarrow> bool" where
  "history_ok h =
     (length h \<le> 50 \<and> distinct (map h_word h) \<and> list_all (\<lambda>i. toLowerCase (h_word i) = h_word i) h)"

text \<open>The list without its repetitions, each element at the place of its first occurrence.\<close>

primrec first_seen :: "'a list \<Rightarrow> 'a list" where
  "first_seen [] = []"
| "first_seen (x # xs) = x # filter (\<lambda>y. y \<noteq> x) (first_seen xs)"

definition listed :: "string list option \<Rightarrow> string list" where
  "listed l = (case l of None \<Rightarrow> [] | Some syns \<Rightarrow> syns)"

text \<open>The synonyms of an entry in the order of the traversal: meaning by meaning, the
  meaning's own synonyms first, then those of its definitions in order.\<close>

definition meaning_synonyms :: "Meaning \<Rightarrow> string list" where
  "meaning_synonyms m = listed (m_synonyms m) @ concat (map (\<lambda>d. listed (d_synonyms d)) (definitions m))"

definition entry_synonyms :: "DictionaryEntry \<Rightarrow> string list" where
  "entry_synonyms e = concat (map meaning_synonyms (meanings e))"

text \<open>Membership in Favorites by exact word.\<close>

definition contains :: "string \<Rightarrow> FavoriteItem list \<Rightarrow> bool" where
  "contains word favs = list_ex (\<lambda>f. f_word f = word) favs"

text \<open>Two Favorites collections that differ in timestamps at most.\<close>

definition same_but_timestamps :: "FavoriteItem list \<Rightarrow> FavoriteItem list \<Rightarrow> bool" where
  "same_but_timestamps a b =
     (map (\<lambda>f. (f_word f, f_definition f)) a = map (\<lambda>f. (f_word f, f_definition f)) b)"

text \<open>\<open>toggleFavorite\<close> called twice, the second call on the state the first one left.\<close>

definition toggle_twice :: "nat \<Rightarrow> nat \<Rightarrow> app \<Rightarrow> js_error + app" where
  "toggle_twice t1 t2 s = (case toggleFavorite t1 s of Inl e \<Rightarrow> Inl e | Inr s1 \<Rightarrow> toggleFavorite t2 s1)"

section \<open>Sample data\<close>

definition move_fast :: Definition where
  "move_fast =
     \<lparr>d_definition = ''move fast'', d_example = None,
      d_synonyms = Some [''sprint'', ''dash''], d_antonyms = None\<rparr>"

definition operate :: Definition where
  "operate =
     \<lparr>d_definition = ''operate'', d_example = None, d_synonyms = None, d_antonyms = None\<rparr>"

definition a_jog :: Definition where
  "a_jog =
     \<lparr>d_definition = ''a jog'', d_example = None,
      d_synonyms = Some [''jog'', ''Jog''], d_antonyms = None\<rparr>"

definition verb_meaning :: Meaning where
  "verb_meaning =
     \<lparr>partOfSpeech = ''verb'', definitions = [move_fast, operate],
      m_synonyms = Some [''jog'', ''sprint''], m_antonyms = None\<rparr>"

definition noun_meaning :: Meaning where
  "noun_meaning =
     \<lparr>partOfSpeech = ''noun'', definitions = [a_jog], m_synonyms = None, m_antonyms = None\<rparr>"

definition run_entry :: DictionaryEntry where
  "run_entry =
     \<lparr>e_word = ''run'', phonetic = None,
      phonetics = [\<lparr>p_text = None, p_audio = Some []\<rparr>, \<lparr>p_text = None, p_audio = Some ''run.mp3''\<rparr>],
      meanings = [verb_meaning, noun_meaning],
      sourceUrls = []\<rparr>"

text \<open>An entry without meanings, and one whose first meaning has no definition while its
  second meaning has one.\<close>

definition bare_entry :: DictionaryEntry where
  "bare_entry = \<lparr>e_word = ''qi'', phonetic = None, phonetics = [], meanings = [], sourceUrls = []\<rparr>"

definition hollow_entry :: DictionaryEntry where
  "hollow_entry =
     \<lparr>e_word = ''om'', phonetic = None, phonetics = [],
      meanings =
        [\<lparr>partOfSpeech = ''noun'', definitions = [], m_synonyms = None, m_antonyms = None\<rparr>,
         \<lparr>partOfSpeech = ''verb'',
          definitions = [\<lparr>d_definition = ''chant'', d_example = None, d_synonyms = None,
                          d_antonyms = None\<rparr>],
          m_synonyms = None, m_antonyms = None\<rparr>],
      sourceUrls = []\<rparr>"

text \<open>Remote services: one that knows \<open>run\<close>, one that answers every request with status 200
  and an empty list, one that is unreachable.\<close>

definition run_service :: "string \<Rightarrow> fetch_outcome" where
  "run_service url = Resolved (Response True (Some [run_entry]))"

definition empty_service :: "string \<Rightarrow> fetch_outcome" where
  "empty_service url = Resolved (Response True (Some []))"

definition down_service :: "string \<Rightarrow> fetch_outcome" where
  "down_service url = Rejected"

definition apple_fav :: FavoriteItem where
  "apple_fav = \<lparr>f_word = ''apple'', f_definition = ''a fruit'', f_timestamp = 1\<rparr>"

definition run_fav :: FavoriteItem where
  "run_fav = \<lparr>f_word = ''run'', f_definition = ''move fast'', f_timestamp = 2\<rparr>"

text \<open>A state showing \<open>run\<close> with two favorites, \<open>run\<close> the older one.\<close>

definition showing_run :: app where
  "showing_run = initial_app\<lparr>data := Some [run_entry], favorites := [apple_fav, run_fav]\<rparr>"





text \<open>Two searches that overlap: \<open>zzz\<close> is not in the dictionary (status 404), \<open>run\<close>
  is; the first settles after the second has begun. And the state they end in.\<close>

definition overlapping :: "event list" where
  "overlapping =
     [Begin ''zzz'', Begin ''run'', Settle ''zzz'' 1 (Resolved (Response False None)),
      Settle ''run'' 2 (Resolved (Response True (Some [run_entry])))]"

definition after_overlap :: app where
  "after_overlap =
     initial_app\<lparr>data := Some [run_entry], err := Some (error_message ''zzz''),
                   history := [\<lparr>h_word = ''run'', h_timestamp = 2\<rparr>]\<rparr>"

text \<open>One search of \<open>Run\<close> with the history cleared and the query retyped while it is in
  flight, and the state it ends in.\<close>

definition busy_search :: "event list" where
  "busy_search =
     [Begin ''Run'', Act ClearHistory, Act (SetValue ''cat''),
      Settle ''Run'' 9 (Resolved (Response True (Some [run_entry])))]"

definition after_busy_search :: app where
  "after_busy_search =
     initial_app\<lparr>input_value := ''cat'', data := Some [run_entry],
                   history := [\<lparr>h_word = ''run'', h_timestamp = 9\<rparr>]\<rparr>"

section \<open>The guard, the failure path and the success path of a search\<close>

lemma trim_empty_iff: "trim word = [] \<longleftrightarrow> list_all is_space word"
proof -
  have "dropWhile is_space word = [] \<longleftrightarrow> list_all is_space word"
    by (simp add: list_all_iff)
  moreover have "trim word = [] \<longleftrightarrow> dropWhile is_space word = []"
  proof
    assume "trim word = []"
    then have "dropWhile is_space (rev (dropWhile is_space word)) = []"
      by (simp add: trim_def)
    then have "\<forall>c \<in> set (dropWhile is_space word). is_space c"
      by simp
    then show "dropWhile is_space word = []"
      by (metis hd_dropWhile hd_in_set)
  next
    assume "dropWhile is_space word = []"
    then show "trim word = []"
      unfolding trim_def by (simp del: dropWhile_eq_Nil_conv)
  qed
  ultimately show ?thesis by simp
qed

lemma blank_trim: "trim [CHR 0x20, CHR 0x09, CHR 0xA0] = []"
  by code_simp

lemma run_trim: "trim ''Run'' \<noteq> []"
  by code_simp

lemma lower_Run: "toLowerCase ''Run'' = ''run''"
  by code_simp

text \<open>
  C9. A term whose trimmed form is empty (by \<open>trim_empty_iff\<close>: the empty string or a
  string of white space only) makes \<open>searchWord\<close> return at its guard, in both variants:
  the whole state, and so SearchState, History and Favorites, is what it was, and the list
  of effects is empty, so no request is sent.
\<close>

theorem empty_term_is_noop:
  assumes "trim word = []"
  shows "searchWord net now word s = (s, []) \<and> searchWord2 net now word s = (s, [])"
  using assms
  by (simp add: searchWord_def searchWord2_def searchWord_with_def searchWord_begin_def)

theorem empty_term_is_noop_witness:
  "trim [CHR 0x20, CHR 0x09, CHR 0xA0] = []
   \<and> searchWord run_service 5 [CHR 0x20, CHR 0x09, CHR 0xA0] showing_run = (showing_run, [])
   \<and> searchWord2 run_service 5 [CHR 0x20, CHR 0x09, CHR 0xA0] showing_run = (showing_run, [])"
  using empty_term_is_noop [OF blank_trim, of run_service 5 showing_run] blank_trim by simp

lemma sublist_error_message: "sublist word (error_message word)"
  unfolding error_message_def sublist_def by blast

text \<open>
  C4. When the lookup of a term fails (the \<open>fetch\<close> rejects, the status is not a success,
  or the body cannot be read), then after \<open>searchWord\<close>, in either variant: \<open>loading\<close> is
  false, \<open>data\<close> is absent, the error message is the original term, as typed, between
  quotes and followed by a fixed text, and History (and Favorites) are what they were.
\<close>

theorem failed_lookup:
  assumes "trim word \<noteq> []"
    and "net (url_of word) = Rejected
         \<or> (\<exists>j. net (url_of word) = Resolved (Response False j))
         \<or> net (url_of word) = Resolved (Response True None)"
  shows "\<not> loading (fst (searchWord_with url_of net now word s))
     \<and> data (fst (searchWord_with url_of net now word s)) = None
     \<and> err (fst (searchWord_with url_of net now word s)) = Some (error_message word)
     \<and> sublist word (error_message word)
     \<and> history (fst (searchWord_with url_of net now word s)) = history s
     \<and> favorites (fst (searchWord_with url_of net now word s)) = favorites s"
  using assms
  by (auto simp: searchWord_with_def searchWord_begin_def searchWord_resume_def
      sublist_error_message split: prod.splits)

theorem failed_lookup_witness:
  "trim ''Run'' \<noteq> [] \<and> down_service (fetch_url ''Run'') = Rejected
   \<and> \<not> loading (fst (searchWord_with fetch_url down_service 9 ''Run'' showing_run))
   \<and> data (fst (searchWord_with fetch_url down_service 9 ''Run'' showing_run)) = None
   \<and> err (fst (searchWord_with fetch_url down_service 9 ''Run'' showing_run))
       = Some (error_message ''Run'')
   \<and> history (fst (searchWord_with fetch_url down_service 9 ''Run'' showing_run))
       = history showing_run"
  using failed_lookup [OF run_trim, of down_service fetch_url 9 showing_run] run_trim
  by (simp add: down_service_def)

lemma filter_same_word_updater:
  "filter (\<lambda>i. h_word i = w) (take n (filter (\<lambda>i. h_word i \<noteq> w) prev)) = []"
  by (auto simp: filter_empty_conv dest: in_set_takeD)

lemma history_updater_front:
  "history_updater word now prev
     = \<lparr>h_word = toLowerCase word, h_timestamp = now\<rparr>
         # take 49 (filter (\<lambda>i. h_word i \<noteq> toLowerCase word) prev)"
  by (simp add: history_updater_def)

lemma history_updater_once:
  "filter (\<lambda>i. h_word i = toLowerCase word) (history_updater word now prev)
     = [\<lparr>h_word = toLowerCase word, h_timestamp = now\<rparr>]"
  by (simp add: history_updater_front filter_same_word_updater)

section \<open>Favorites: toggling, removing, membership\<close>

lemma isFavorite_contains:
  "data s = Some (e # es) \<Longrightarrow> isFavorite s = contains (e_word e) (favorites s)"
  by (simp add: isFavorite_def contains_def)

lemma toggleFavorite_remove:
  "data s = Some (e # es) \<Longrightarrow> isFavorite s \<Longrightarrow>
   toggleFavorite now s = Inr (removeFromFavorites (e_word e) s)"
  by (simp add: toggleFavorite_def)

lemma toggleFavorite_add:
  "data s = Some (e # es) \<Longrightarrow> \<not> isFavorite s \<Longrightarrow> meanings e = m # ms \<Longrightarrow>
   definitions m = d # ds \<Longrightarrow>
   toggleFavorite now s
     = Inr (s\<lparr>favorites := \<lparr>f_word = e_word e, f_definition = d_definition d,
                               f_timestamp = now\<rparr> # favorites s\<rparr>)"
  by (simp add: toggleFavorite_def)

lemma toggleFavorite_throws:
  "data s = Some (e # es) \<Longrightarrow> \<not> isFavorite s \<Longrightarrow>
   meanings e = [] \<or> (\<exists>m ms. meanings e = m # ms \<and> definitions m = []) \<Longrightarrow>
   toggleFavorite now s = Inl TypeError"
  by (auto simp: toggleFavorite_def)

text \<open>
  C10. \<open>toggleFavorite\<close>, when it adds (an entry is loaded and its word is not a
  favorite), reads \<open>data[0].meanings[0].definitions[0].definition\<close> with no guard. The
  call succeeds exactly when the first entry has a first meaning and that meaning has a
  first definition, and throws a TypeError otherwise; in particular it throws whenever no
  meaning of the first entry has a definition, so that an entry with a meaning whose
  definitions are non-empty is necessary for the access to be in bounds.
\<close>

theorem toggleFavorite_unguarded:
  assumes "data s = Some (e # es)" and "\<not> isFavorite s"
  shows "((\<exists>s'. toggleFavorite now s = Inr s')
            = (\<exists>m ms d ds. meanings e = m # ms \<and> definitions m = d # ds))
     \<and> ((toggleFavorite now s = Inl TypeError)
            = (meanings e = [] \<or> (\<exists>m ms. meanings e = m # ms \<and> definitions m = [])))
     \<and> (list_all (\<lambda>m. definitions m = []) (meanings e) \<longrightarrow> toggleFavorite now s = Inl TypeError)"
proof (cases "meanings e")
  case Nil
  with assms show ?thesis by (simp add: toggleFavorite_def)
next
  case (Cons m ms)
  show ?thesis
  proof (cases "definitions m")
    case Nil
    with Cons assms show ?thesis by (simp add: toggleFavorite_def)
  next
    case (Cons d ds)
    with \<open>meanings e = m # ms\<close> assms show ?thesis by (simp add: toggleFavorite_def)
  qed
qed

lemma bare_not_favorite: "\<not> isFavorite (initial_app\<lparr>data := Some [bare_entry]\<rparr>)"
  by (simp add: isFavorite_def initial_app_def)

theorem toggleFavorite_unguarded_witness:
  "data (initial_app\<lparr>data := Some [bare_entry]\<rparr>) = Some [bare_entry]
   \<and> \<not> isFavorite (initial_app\<lparr>data := Some [bare_entry]\<rparr>)
   \<and> list_all (\<lambda>m. definitions m = []) (meanings bare_entry)
   \<and> toggleFavorite 3 (initial_app\<lparr>data := Some [bare_entry]\<rparr>) = Inl TypeError"
  using toggleFavorite_unguarded [of "initial_app\<lparr>data := Some [bare_entry]\<rparr>" bare_entry "[]" 3]
    bare_not_favorite
  by (simp add: bare_entry_def)

text \<open>The first meaning is the one that is read: an entry whose second meaning alone has a
  definition makes the call throw as well.\<close>

lemma hollow_entry_throws:
  "toggleFavorite 3 (initial_app\<lparr>data := Some [hollow_entry]\<rparr>) = Inl TypeError"
  by (simp add: toggleFavorite_def isFavorite_def initial_app_def hollow_entry_def)

lemma contains_filter_out: "\<not> contains word (filter (\<lambda>f. f_word f \<noteq> word) favs)"
  by (simp add: contains_def list_ex_iff)

lemma filter_absent: "\<not> contains word favs \<Longrightarrow> filter (\<lambda>f. f_word f \<noteq> word) favs = favs"
  by (simp add: contains_def list_ex_iff filter_id_conv)

lemma toggle_twice_absent:
  assumes "data s = Some (e # es)" and "meanings e = m # ms" and "definitions m = d # ds"
    and "\<not> isFavorite s"
  shows "toggle_twice t1 t2 s = Inr s"
proof -
  let ?new = "\<lparr>f_word = e_word e, f_definition = d_definition d, f_timestamp = t1\<rparr>"
  let ?s1 = "s\<lparr>favorites := ?new # favorites s\<rparr>"
  have first: "toggleFavorite t1 s = Inr ?s1"
    using assms by (simp add: toggleFavorite_add)
  have "isFavorite ?s1"
    using assms(1) by (simp add: isFavorite_def)
  moreover have "data ?s1 = Some (e # es)"
    using assms(1) by simp
  ultimately have "toggleFavorite t2 ?s1 = Inr (removeFromFavorites (e_word e) ?s1)"
    by (rule toggleFavorite_remove [rotated])
  moreover have "removeFromFavorites (e_word e) ?s1 = s"
    using assms(1,4) by (simp add: removeFromFavorites_def isFavorite_contains filter_absent)
  ultimately show ?thesis
    by (simp add: toggle_twice_def first)
qed

lemma toggle_twice_present:
  assumes "data s = Some (e # es)" and "meanings e = m # ms" and "definitions m = d # ds"
    and "isFavorite s"
  shows "toggle_twice t1 t2 s
     = Inr (s\<lparr>favorites := \<lparr>f_word = e_word e, f_definition = d_definition d, f_timestamp = t2\<rparr>
                               # filter (\<lambda>f. f_word f \<noteq> e_word e) (favorites s)\<rparr>)"
proof -
  let ?s1 = "removeFromFavorites (e_word e) s"
  have first: "toggleFavorite t1 s = Inr ?s1"
    using assms by (simp add: toggleFavorite_remove)
  have d1: "data ?s1 = Some (e # es)"
    using assms(1) by (simp add: removeFromFavorites_def)
  have "\<not> isFavorite ?s1"
    using d1 by (simp add: isFavorite_contains) (simp add: removeFromFavorites_def contains_filter_out)
  with d1 assms(2,3) have "toggleFavorite t2 ?s1
     = Inr (?s1\<lparr>favorites := \<lparr>f_word = e_word e, f_definition = d_definition d,
                                  f_timestamp = t2\<rparr> # favorites ?s1\<rparr>)"
    by (simp add: toggleFavorite_add)
  then show ?thesis
    by (simp add: toggle_twice_def first removeFromFavorites_def)
qed

text \<open>
  C5, as the code has it. \<open>isFavorite\<close> is membership by the exact word of the loaded
  entry. After a \<open>toggleFavorite\<close> that adds, the word is contained; \<open>removeFromFavorites\<close>
  deletes every record with exactly that word, after which the word is not contained, and
  a \<open>toggleFavorite\<close> on a favorite is that removal. Two calls of \<open>toggleFavorite\<close> on a
  loaded entry whose first meaning has a first definition give back the state itself when
  the word was not a favorite; when it was one, the records of the other words keep their
  order and a fresh record of the word (the second call's timestamp, the first definition
  now displayed) stands in front of them.
\<close>

theorem favorites_operations:
  "(data s = Some (e # es) \<longrightarrow> isFavorite s = contains (e_word e) (favorites s))
   \<and> (data s = Some (e # es) \<and> \<not> isFavorite s \<and> toggleFavorite now s = Inr s'
        \<longrightarrow> contains (e_word e) (favorites s') \<and> isFavorite s')
   \<and> favorites (removeFromFavorites word s) = filter (\<lambda>f. f_word f \<noteq> word) (favorites s)
   \<and> \<not> contains word (favorites (removeFromFavorites word s))
   \<and> (data s = Some (e # es) \<and> isFavorite s
        \<longrightarrow> toggleFavorite now s = Inr (removeFromFavorites (e_word e) s)
            \<and> \<not> isFavorite (removeFromFavorites (e_word e) s))
   \<and> (data s = Some (e # es) \<and> meanings e = m # ms \<and> definitions m = d # ds
        \<longrightarrow> toggle_twice t1 t2 s
            = Inr (if isFavorite s
                   then s\<lparr>favorites :=
                            \<lparr>f_word = e_word e, f_definition = d_definition d, f_timestamp = t2\<rparr>
                              # filter (\<lambda>f. f_word f \<noteq> e_word e) (favorites s)\<rparr>
                   else s))"
proof (intro conjI impI)
  show "isFavorite s = contains (e_word e) (favorites s)" if "data s = Some (e # es)"
    using that by (rule isFavorite_contains)
next
  assume a: "data s = Some (e # es) \<and> \<not> isFavorite s \<and> toggleFavorite now s = Inr s'"
  then have "favorites s' \<noteq> [] \<and> f_word (hd (favorites s')) = e_word e \<and> data s' = data s"
    by (auto simp: toggleFavorite_def split: list.splits)
  then show c: "contains (e_word e) (favorites s')"
    by (cases "favorites s'") (auto simp: contains_def)
  from a \<open>favorites s' \<noteq> [] \<and> f_word (hd (favorites s')) = e_word e \<and> data s' = data s\<close>
  have "data s' = Some (e # es)" by simp
  then show "isFavorite s'" using c by (simp add: isFavorite_contains)
next
  show "favorites (removeFromFavorites word s) = filter (\<lambda>f. f_word f \<noteq> word) (favorites s)"
    by (simp add: removeFromFavorites_def)
next
  show "\<not> contains word (favorites (removeFromFavorites word s))"
    by (simp add: removeFromFavorites_def contains_filter_out)
next
  assume a: "data s = Some (e # es) \<and> isFavorite s"
  then show "toggleFavorite now s = Inr (removeFromFavorites (e_word e) s)"
    by (simp add: toggleFavorite_remove)
  have "data (removeFromFavorites (e_word e) s) = Some (e # es)"
    using a by (simp add: removeFromFavorites_def)
  then show "\<not> isFavorite (removeFromFavorites (e_word e) s)"
    by (simp add: isFavorite_contains) (simp add: removeFromFavorites_def contains_filter_out)
next
  assume a: "data s = Some (e # es) \<and> meanings e = m # ms \<and> definitions m = d # ds"
  show "toggle_twice t1 t2 s
      = Inr (if isFavorite s
             then s\<lparr>favorites :=
                      \<lparr>f_word = e_word e, f_definition = d_definition d, f_timestamp = t2\<rparr>
                        # filter (\<lambda>f. f_word f \<noteq> e_word e) (favorites s)\<rparr>
             else s)"
    using a toggle_twice_absent [of s e es m ms d ds t1 t2]
      toggle_twice_present [of s e es m ms d ds t1 t2]
    by simp
qed

lemma showing_run_favorite: "isFavorite showing_run"
  by (simp add: showing_run_def isFavorite_def initial_app_def run_entry_def run_fav_def apple_fav_def)

text \<open>
  The claim as written lets only the timestamp differ after two toggles. With \<open>apple\<close>
  and \<open>run\<close> in Favorites, in this order, and \<open>run\<close> displayed, two toggles leave
  \<open>run\<close> before \<open>apple\<close>: words and definitions are no longer the same list.
\<close>

theorem toggle_twice_moves_record:
  "toggle_twice 7 8 showing_run
     = Inr (showing_run\<lparr>favorites := [run_fav\<lparr>f_timestamp := 8\<rparr>, apple_fav]\<rparr>)
   \<and> \<not> same_but_timestamps [run_fav\<lparr>f_timestamp := 8\<rparr>, apple_fav] (favorites showing_run)"
  by code_simp

theorem favorites_operations_witness:
  "data showing_run = Some [run_entry] \<and> isFavorite showing_run
   \<and> meanings run_entry = [verb_meaning, noun_meaning]
   \<and> definitions verb_meaning = [move_fast, operate]
   \<and> toggleFavorite 7 showing_run = Inr (removeFromFavorites ''run'' showing_run)
   \<and> \<not> isFavorite (removeFromFavorites ''run'' showing_run)
   \<and> \<not> contains ''run'' (favorites (removeFromFavorites ''run'' showing_run))
   \<and> toggle_twice 7 8 showing_run
       = Inr (showing_run\<lparr>favorites :=
                \<lparr>f_word = ''run'', f_definition = ''move fast'', f_timestamp = 8\<rparr>
                  # filter (\<lambda>f. f_word f \<noteq> ''run'') (favorites showing_run)\<rparr>)"
proof -
  have 1: "data showing_run = Some (run_entry # [])"
    by (simp add: showing_run_def)
  have 2: "meanings run_entry = verb_meaning # [noun_meaning]"
    and 3: "definitions verb_meaning = move_fast # [operate]"
    and 4: "e_word run_entry = ''run''" and 5: "d_definition move_fast = ''move fast''"
    by (simp_all add: run_entry_def verb_meaning_def move_fast_def)
  show ?thesis
    using favorites_operations [of showing_run run_entry "[]" 7 showing_run "''run''"
        verb_meaning "[noun_meaning]" move_fast "[operate]" 7 8]
      1 2 3 4 5 showing_run_favorite
    by (simp add: contains_filter_out)
qed

section \<open>Reading the store at start-up\<close>

lemma parse_if_saved_cases:
  "parse_if_saved saved current
     = (case saved of
          None \<Rightarrow> Inr (Holds current)
        | Some EmptyText \<Rightarrow> Inr (Holds current)
        | Some Unparsable \<Rightarrow> Inl SyntaxError
        | Some (Json v) \<Rightarrow> Inr (Holds v)
        | Some OtherJson \<Rightarrow> Inr NotAList)"
  by (simp add: parse_if_saved_def)







section \<open>The synonyms of the displayed entry\<close>

lemma first_seen_filter: "first_seen (filter P xs) = filter P (first_seen xs)"
proof (induction xs)
  case Nil
  show ?case by simp
next
  case (Cons x xs)
  show ?case
  proof (cases "P x")
    case True
    then show ?thesis
      using Cons.IH by (simp add: conj_commute)
  next
    case False
    have "filter P (filter (\<lambda>y. y \<noteq> x) (first_seen xs)) = filter P (first_seen xs)"
      using False by (auto simp: filter_id_conv intro!: filter_cong)
    then show ?thesis
      using False Cons.IH by simp
  qed
qed

lemma set_first_seen: "set (first_seen xs) = set xs"
  by (induction xs) auto

lemma distinct_first_seen: "distinct (first_seen xs)"
  by (induction xs) (auto simp: set_first_seen)

lemma subseq_first_seen: "subseq (first_seen xs) xs"
proof (induction xs)
  case Nil
  show ?case by simp
next
  case (Cons x xs)
  have "subseq (filter (\<lambda>y. y \<noteq> x) (first_seen xs)) (first_seen xs)"
    by simp
  then have "subseq (filter (\<lambda>y. y \<noteq> x) (first_seen xs)) xs"
    using Cons.IH by (rule subseq_order.trans)
  then show ?case by simp
qed

lemma foldl_set_add:
  "foldl set_add acc xs = acc @ first_seen (filter (\<lambda>x. x \<notin> set acc) xs)"
proof (induction xs arbitrary: acc)
  case Nil
  show ?case by simp
next
  case (Cons x xs)
  show ?case
  proof (cases "x \<in> set acc")
    case True
    then show ?thesis using Cons.IH [of acc] by (simp add: set_add_def)
  next
    case False
    have "filter (\<lambda>y. y \<notin> set (acc @ [x])) xs = filter (\<lambda>y. y \<noteq> x) (filter (\<lambda>y. y \<notin> set acc) xs)"
      by (auto intro: filter_cong)
    then have "first_seen (filter (\<lambda>y. y \<notin> set (acc @ [x])) xs)
        = filter (\<lambda>y. y \<noteq> x) (first_seen (filter (\<lambda>y. y \<notin> set acc) xs))"
      by (simp only: first_seen_filter)
    then show ?thesis
      using False Cons.IH [of "acc @ [x]"] by (simp add: set_add_def)
  qed
qed

lemma add_optional_listed: "add_optional acc l = foldl set_add acc (listed l)"
  by (simp add: add_optional_def listed_def split: option.splits)

lemma foldl_definitions:
  "foldl (\<lambda>acc def. add_optional acc (d_synonyms def)) acc ds
     = foldl set_add acc (concat (map (\<lambda>d. listed (d_synonyms d)) ds))"
  by (induction ds arbitrary: acc) (simp_all add: add_optional_listed)

lemma add_meaning_flat: "add_meaning acc m = foldl set_add acc (meaning_synonyms m)"
  unfolding add_meaning_def meaning_synonyms_def foldl_definitions
  by (simp add: add_optional_listed)

lemma foldl_meanings:
  "foldl add_meaning acc ms = foldl set_add acc (concat (map meaning_synonyms ms))"
  by (induction ms arbitrary: acc) (simp_all add: add_meaning_flat)

lemma getAllSynonyms_first_seen:
  "data s = Some (e # es) \<Longrightarrow> getAllSynonyms s = first_seen (entry_synonyms e)"
  by (simp add: getAllSynonyms_def foldl_meanings foldl_set_add entry_synonyms_def)

lemma set_entry_synonyms:
  "set (entry_synonyms e)
     = (\<Union>m \<in> set (meanings e).
          set (listed (m_synonyms m)) \<union> (\<Union>d \<in> set (definitions m). set (listed (d_synonyms d))))"
  by (simp add: entry_synonyms_def meaning_synonyms_def)

text \<open>
  C7. \<open>getAllSynonyms\<close> is empty when no entry is loaded (\<open>data\<close> absent or the empty
  list). Otherwise, for the first entry, it is the sequence of the traversal (meaning by
  meaning: the meaning's own synonyms, then the synonyms of each of its definitions) with
  every repeated string dropped after its first occurrence: it has no duplicates under
  equality of strings, it keeps the order of the traversal, and as a set it is the union of
  all the synonym lists of the meanings and of their definitions.
\<close>

theorem allSynonyms:
  "(data s = None \<or> data s = Some [] \<longrightarrow> getAllSynonyms s = [])
   \<and> (data s = Some (e # es) \<longrightarrow>
        getAllSynonyms s = first_seen (entry_synonyms e)
        \<and> distinct (getAllSynonyms s)
        \<and> subseq (getAllSynonyms s) (entry_synonyms e)
        \<and> set (getAllSynonyms s)
            = (\<Union>m \<in> set (meanings e).
                 set (listed (m_synonyms m))
                 \<union> (\<Union>d \<in> set (definitions m). set (listed (d_synonyms d)))))"
proof (intro conjI impI)
  assume "data s = None \<or> data s = Some []"
  then show "getAllSynonyms s = []"
    by (auto simp: getAllSynonyms_def)
next
  assume d: "data s = Some (e # es)"
  then show eq: "getAllSynonyms s = first_seen (entry_synonyms e)"
    by (rule getAllSynonyms_first_seen)
  show "distinct (getAllSynonyms s)"
    unfolding eq by (rule distinct_first_seen)
  show "subseq (getAllSynonyms s) (entry_synonyms e)"
    unfolding eq by (rule subseq_first_seen)
  show "set (getAllSynonyms s)
      = (\<Union>m \<in> set (meanings e).
           set (listed (m_synonyms m)) \<union> (\<Union>d \<in> set (definitions m). set (listed (d_synonyms d))))"
    unfolding eq by (simp only: set_first_seen set_entry_synonyms)
qed

lemma run_entry_synonyms:
  "entry_synonyms run_entry = [''jog'', ''sprint'', ''sprint'', ''dash'', ''jog'', ''Jog'']"
  by code_simp

theorem allSynonyms_witness:
  "getAllSynonyms initial_app = []
   \<and> data showing_run = Some [run_entry]
   \<and> entry_synonyms run_entry = [''jog'', ''sprint'', ''sprint'', ''dash'', ''jog'', ''Jog'']
   \<and> getAllSynonyms showing_run = [''jog'', ''sprint'', ''dash'', ''Jog'']"
proof -
  have 1: "data showing_run = Some (run_entry # [])"
    by (simp add: showing_run_def)
  have 2: "data initial_app = None"
    by (simp add: initial_app_def)
  show ?thesis
    using allSynonyms [of showing_run run_entry "[]"] allSynonyms [of initial_app run_entry "[]"] 1 2
    by (simp add: run_entry_synonyms)
qed

section \<open>The request of a search\<close>

lemma code_unit_char_of: "n < 256 \<Longrightarrow> code_unit (char_of n) = n"
  by (simp add: code_unit_def)

lemma code_unit_less: "code_unit c < 256"
  by (simp add: code_unit_def)

lemma lower_char_idem: "lower_char (lower_char c) = lower_char c"
proof -
  let ?n = "code_unit c"
  show ?thesis
  proof (cases "(65 \<le> ?n \<and> ?n \<le> 90) \<or> (192 \<le> ?n \<and> ?n \<le> 214) \<or> (216 \<le> ?n \<and> ?n \<le> 222)")
    case True
    then have "?n + 32 < 256" by arith
    then have cu: "code_unit (char_of (?n + 32)) = ?n + 32"
      by (rule code_unit_char_of)
    have l: "lower_char c = char_of (?n + 32)"
      using True by (simp add: lower_char_def Let_def)
    have "\<not> ((65 \<le> ?n + 32 \<and> ?n + 32 \<le> 90) \<or> (192 \<le> ?n + 32 \<and> ?n + 32 \<le> 214)
               \<or> (216 \<le> ?n + 32 \<and> ?n + 32 \<le> 222))"
      using True by arith
    then have "lower_char (char_of (?n + 32)) = char_of (?n + 32)"
      unfolding lower_char_def Let_def cu by (simp only: if_False)
    then show ?thesis by (simp only: l)
  next
    case False
    then have "lower_char c = c"
      unfolding lower_char_def Let_def by (rule if_not_P)
    then show ?thesis by simp
  qed
qed

lemma toLowerCase_idem: "toLowerCase (toLowerCase w) = toLowerCase w"
  by (simp add: toLowerCase_def lower_char_idem)

lemma hex_digit_unreserved: "d < 16 \<Longrightarrow> unreserved (hex_digit d)"
proof -
  assume d: "d < 16"
  show ?thesis
  proof (cases "d < 10")
    case True
    then have "code_unit (char_of (48 + d)) = 48 + d"
      by (simp add: code_unit_char_of)
    then show ?thesis
      using True by (simp add: unreserved_def hex_digit_def Let_def)
  next
    case False
    with d have "code_unit (char_of (55 + d)) = 55 + d"
      by (simp add: code_unit_char_of)
    then show ?thesis
      using False d by (simp add: unreserved_def hex_digit_def Let_def)
  qed
qed

lemma utf8_bytes_small: "n < 256 \<Longrightarrow> b \<in> set (utf8_bytes n) \<Longrightarrow> b < 256"
  by (auto simp: utf8_bytes_def split: if_splits)

lemma percent_byte_safe:
  "b < 256 \<Longrightarrow> c \<in> set (percent_byte b) \<Longrightarrow> unreserved c \<or> c = CHR ''%''"
proof -
  assume b: "b < 256" and c: "c \<in> set (percent_byte b)"
  have "b div 16 < 16" "b mod 16 < 16" using b by simp_all
  then have "unreserved (hex_digit (b div 16))" "unreserved (hex_digit (b mod 16))"
    by (simp_all add: hex_digit_unreserved)
  then show ?thesis
    using c by (auto simp: percent_byte_def)
qed

text \<open>What \<open>encodeURIComponent\<close> returns is made of unreserved characters and escapes.\<close>

lemma encodeURIComponent_safe:
  "c \<in> set (encodeURIComponent s) \<Longrightarrow> unreserved c \<or> c = CHR ''%''"
proof -
  assume "c \<in> set (encodeURIComponent s)"
  then obtain x where "x \<in> set s" and cx: "c \<in> set (encode_char x)"
    by (auto simp: encodeURIComponent_def)
  show ?thesis
  proof (cases "unreserved x")
    case True
    with cx show ?thesis by (simp add: encode_char_def)
  next
    case False
    with cx obtain b where "b \<in> set (utf8_bytes (code_unit x))" and "c \<in> set (percent_byte b)"
      by (auto simp: encode_char_def)
    moreover from this have "b < 256"
      using utf8_bytes_small [OF code_unit_less] by blast
    ultimately show ?thesis
      by (simp add: percent_byte_safe)
  qed
qed

text \<open>The first variant sends one request, for the lower-cased, percent-encoded term.\<close>

lemma first_variant_request:
  assumes "trim word \<noteq> []"
  shows "\<exists>effs. snd (searchWord net now word s)
             = Fetch (api_url @ encodeURIComponent (toLowerCase word)) # effs
           \<and> (\<forall>u. Fetch u \<notin> set effs)"
  using assms
  by (auto simp: searchWord_def searchWord_with_def searchWord_begin_def searchWord_resume_def
      fetch_url_def split: prod.splits fetch_outcome.splits response.splits bool.splits
      option.splits)

lemma second_variant_request:
  assumes "trim word \<noteq> []"
  shows "\<exists>effs. snd (searchWord2 net now word s) = Fetch (api_url @ toLowerCase word) # effs
           \<and> (\<forall>u. Fetch u \<notin> set effs)"
  using assms
  by (auto simp: searchWord2_def searchWord_with_def searchWord_begin_def searchWord_resume_def
      fetch_url2_def split: prod.splits fetch_outcome.splits response.splits bool.splits
      option.splits)

text \<open>
  C8. The claim holds of the first variant (\<open>first_variant_request\<close>): the one request
  of a search is for the lower-cased term passed through \<open>encodeURIComponent\<close>. The
  second variant appends the lower-cased term to the URL as it is
  (\<open>second_variant_request\<close>). For the term \<open>a?b\<close> the second variant therefore asks for
  \<open>a?b\<close>, where the percent-encoded term, which the first variant sends, is \<open>a%3Fb\<close>.
\<close>

theorem second_variant_sends_raw_term:
  "snd (searchWord2 down_service 0 ''a?b'' initial_app) = [Fetch (api_url @ ''a?b''), ConsoleError]
   \<and> encodeURIComponent (toLowerCase ''a?b'') = ''a%3Fb''
   \<and> snd (searchWord down_service 0 ''a?b'' initial_app) = [Fetch (api_url @ ''a%3Fb''), ConsoleError]"
  by code_simp

section \<open>The SearchState invariant\<close>

lemma searchWord_resume_loading: "\<not> loading (fst (searchWord_resume word now autoplay outcome s))"
  by (simp add: searchWord_resume_def split: fetch_outcome.splits response.splits bool.splits
      option.splits)

lemma searchWord_resume_exclusive:
  "err s = None \<Longrightarrow> mutually_exclusive (fst (searchWord_resume word now autoplay outcome s))"
  by (simp add: searchWord_resume_def mutually_exclusive_def
      split: fetch_outcome.splits response.splits bool.splits option.splits)

lemma searchWord_with_settled:
  assumes "trim word \<noteq> []"
  shows "mutually_exclusive (fst (searchWord_with url_of net now word s))
     \<and> \<not> loading (fst (searchWord_with url_of net now word s))"
proof -
  let ?s1 = "s\<lparr>loading := True, err := None, mobileTab := MainTab\<rparr>"
  have "fst (searchWord_with url_of net now word s)
      = fst (searchWord_resume word now (autoPlayAudio s) (net (url_of word)) ?s1)"
    using assms by (simp add: searchWord_with_def searchWord_begin_def split: prod.splits)
  moreover have "err ?s1 = None" by simp
  ultimately show ?thesis
    by (simp add: searchWord_resume_loading searchWord_resume_exclusive)
qed

lemma searchWord_with_settled_or_same:
  "mutually_exclusive s \<and> \<not> loading s \<Longrightarrow>
   mutually_exclusive (fst (searchWord_with url_of net now word s))
   \<and> \<not> loading (fst (searchWord_with url_of net now word s))"
proof (cases "trim word = []")
  case True
  assume "mutually_exclusive s \<and> \<not> loading s"
  with True show ?thesis
    by (simp add: searchWord_with_def searchWord_begin_def)
next
  case False
  then show ?thesis by (rule searchWord_with_settled)
qed

lemma toggleFavorite_same_search_state:
  "toggleFavorite now s = Inr s' \<Longrightarrow> data s' = data s \<and> err s' = err s \<and> loading s' = loading s
     \<and> history s' = history s"
  by (auto simp: toggleFavorite_def removeFromFavorites_def split: option.splits list.splits if_splits)

lemma perform_settled:
  assumes "mutually_exclusive s \<and> \<not> loading s"
  shows "mutually_exclusive (perform x s) \<and> \<not> loading (perform x s)"
proof (cases x)
  case (Search word now outcome)
  then show ?thesis
    using searchWord_with_settled_or_same [OF assms] by (simp add: searchWord_def)
next
  case (ToggleFavorite now)
  then show ?thesis
    using assms toggleFavorite_same_search_state [of now s]
    by (auto simp: mutually_exclusive_def split: sum.splits)
qed (use assms in \<open>simp_all add: mutually_exclusive_def removeFromFavorites_def\<close>)

lemma perform_all_settled:
  "mutually_exclusive s \<and> \<not> loading s \<Longrightarrow>
   mutually_exclusive (perform_all ops s) \<and> \<not> loading (perform_all ops s)"
proof (induction ops arbitrary: s)
  case Nil
  then show ?case by simp
next
  case (Cons x xs)
  from Cons.prems have "mutually_exclusive (perform x s) \<and> \<not> loading (perform x s)"
    by (rule perform_settled)
  then show ?case
    using Cons.IH by simp
qed

lemma initial_settled: "mutually_exclusive initial_app \<and> \<not> loading initial_app"
  by (simp add: mutually_exclusive_def initial_app_def)

text \<open>A call that begins and settles with nothing in between is the call run to its end.\<close>

lemma begin_then_settle:
  assumes "trim word \<noteq> []"
  shows "run_events [Begin word, Settle word now outcome] (s, [])
     = Some (fst (searchWord (\<lambda>url. outcome) now word s), [])"
  using assms
  by (simp add: searchWord_def searchWord_with_def searchWord_begin_def split: prod.splits)

lemma lookup_succeeds_iff:
  "lookup_succeeds outcome = (\<exists>result. outcome = Resolved (Response True (Some result)))"
  by (simp add: lookup_succeeds_def split: fetch_outcome.splits response.splits bool.splits
      option.splits)

lemma run_events_append:
  "run_events (xs @ ys) c = (case run_events xs c of None \<Rightarrow> None | Some c' \<Rightarrow> run_events ys c')"
  by (induction xs arbitrary: c) (simp_all split: option.splits)

lemma run_one_at_a_time_append:
  "run_one_at_a_time (xs @ ys) c
     = (case run_one_at_a_time xs c of None \<Rightarrow> None | Some c' \<Rightarrow> run_one_at_a_time ys c')"
  by (induction xs arbitrary: c) (simp_all split: option.splits)

lemma run_one_at_a_time_is_run:
  "run_one_at_a_time evs c = Some c' \<Longrightarrow> run_events evs c = Some c'"
  by (induction evs arbitrary: c) (auto split: if_splits option.splits)

text \<open>The settling of a successful lookup, from any state.\<close>

lemma searchWord_resume_success:
  "fst (searchWord_resume word now autoplay (Resolved (Response True (Some result))) s)
     = s\<lparr>data := Some result, selectedMeaningIndex := 0,
          history := history_updater word now (history s), loading := False\<rparr>"
  by (simp add: searchWord_resume_def)

lemma searchWord_resume_failure:
  "\<not> lookup_succeeds outcome \<Longrightarrow>
   fst (searchWord_resume word now autoplay outcome s)
     = s\<lparr>data := None, err := Some (error_message word), loading := False\<rparr>"
  by (simp add: searchWord_resume_def lookup_succeeds_def
      split: fetch_outcome.splits response.splits bool.splits option.splits)

text \<open>An operation that is not a search of a non-blank term leaves SearchState alone.\<close>

lemma perform_frame:
  assumes "\<not> starts_search (Act x)"
  shows "data (perform x s) = data s \<and> err (perform x s) = err s \<and> loading (perform x s) = loading s"
proof (cases x)
  case (Search word now outcome)
  with assms have "trim word = []" by simp
  with Search show ?thesis
    by (simp add: searchWord_def searchWord_with_def searchWord_begin_def)
next
  case (ToggleFavorite now)
  then show ?thesis
    using toggleFavorite_same_search_state [of now s] by (auto split: sum.splits)
qed (simp_all add: removeFromFavorites_def)

lemma perform_search_no_error:
  assumes "trim word \<noteq> []" and "lookup_succeeds outcome"
  shows "err (perform (Search word now outcome) s) = None"
proof -
  from assms(2) obtain result where "outcome = Resolved (Response True (Some result))"
    by (auto simp: lookup_succeeds_iff)
  with assms(1) show ?thesis
    by (simp add: searchWord_def searchWord_with_def searchWord_begin_def searchWord_resume_def
        split: prod.splits)
qed

text \<open>Only a failed lookup that settles sets \<open>err\<close>.\<close>

lemma step_keeps_no_error:
  assumes "step ev (s, inflight) = Some (s', inflight')" and "\<not> settles_failed ev"
    and "err s = None"
  shows "err s' = None"
proof (cases ev)
  case (Begin word)
  with assms show ?thesis
    by (auto simp: searchWord_begin_def split: if_splits)
next
  case (Settle word now outcome)
  with assms(2) obtain result where "outcome = Resolved (Response True (Some result))"
    by (auto simp: lookup_succeeds_iff)
  with Settle assms(1,3) show ?thesis
    by (auto simp: searchWord_resume_success split: option.splits)
next
  case (Act x)
  show ?thesis
  proof (cases "starts_search (Act x)")
    case True
    then obtain word now outcome where x: "x = Search word now outcome" and t: "trim word \<noteq> []"
      by (cases x) auto
    with assms(2) Act have "lookup_succeeds outcome" by simp
    with t have "err (perform x s) = None"
      unfolding x by (rule perform_search_no_error)
    with Act assms(1) show ?thesis by auto
  next
    case False
    then have "err (perform x s) = err s"
      using perform_frame by blast
    with Act assms(1,3) show ?thesis by auto
  qed
qed

lemma run_keeps_no_error:
  "run_events evs c = Some c' \<Longrightarrow> list_all (\<lambda>ev. \<not> settles_failed ev) evs \<Longrightarrow>
   err (fst c) = None \<Longrightarrow> err (fst c') = None"
proof (induction evs arbitrary: c)
  case Nil
  then show ?case by simp
next
  case (Cons ev evs)
  from Cons.prems(1) obtain c1 where s1: "step ev c = Some c1" and r: "run_events evs c1 = Some c'"
    by (auto split: option.splits)
  have "err (fst c1) = None"
    using step_keeps_no_error [of ev "fst c" "snd c" "fst c1" "snd c1"] s1 Cons.prems(2,3)
    by simp
  with Cons.IH [OF r] Cons.prems(2) show ?case by simp
qed

text \<open>A search from its begin to the settling of its successful lookup, whatever happens
  in between.\<close>

lemma search_in_flight_succeeds:
  assumes "trim word \<noteq> []"
    and "run_events (Begin word # evs @ [Settle word now (Resolved (Response True (Some result)))])
           (s, inflight) = Some (s', inflight')"
  shows "\<not> loading s' \<and> data s' = Some result
     \<and> (\<exists>rest. history s' = \<lparr>h_word = toLowerCase word, h_timestamp = now\<rparr> # rest)
     \<and> filter (\<lambda>i. h_word i = toLowerCase word) (history s')
         = [\<lparr>h_word = toLowerCase word, h_timestamp = now\<rparr>]
     \<and> (list_all (\<lambda>ev. \<not> settles_failed ev) evs \<longrightarrow> err s' = None)"
proof -
  let ?ok = "Resolved (Response True (Some result))"
  let ?c1 = "(s\<lparr>loading := True, err := None, mobileTab := MainTab\<rparr>,
              inflight @ [(word, autoPlayAudio s)])"
  have b: "step (Begin word) (s, inflight) = Some ?c1"
    using assms(1) by (simp add: searchWord_begin_def)
  with assms(2) have "run_events (evs @ [Settle word now ?ok]) ?c1 = Some (s', inflight')"
    by simp
  then obtain c2 where r: "run_events evs ?c1 = Some c2"
    and l: "step (Settle word now ?ok) c2 = Some (s', inflight')"
    by (auto simp: run_events_append split: option.splits)
  obtain s2 fl2 where c2: "c2 = (s2, fl2)" by (cases c2)
  from l c2 obtain autoplay where s': "s' = fst (searchWord_resume word now autoplay ?ok s2)"
    by (auto split: option.splits)
  have e: "list_all (\<lambda>ev. \<not> settles_failed ev) evs \<longrightarrow> err s2 = None"
    using run_keeps_no_error [OF r] c2 by simp
  show ?thesis
    unfolding s' searchWord_resume_success using e
    by (simp add: history_updater_once) (simp add: history_updater_front)
qed

lemma search_state_ok_idle:
  "mutually_exclusive s \<and> \<not> loading s \<Longrightarrow> search_state_ok (s, [])"
  by (simp add: search_state_ok_def)

lemma step_search_state_ok:
  assumes "search_state_ok (s, inflight)" and "\<not> (starts_search ev \<and> inflight \<noteq> [])"
    and "step ev (s, inflight) = Some (s', inflight')"
  shows "search_state_ok (s', inflight')"
proof (cases ev)
  case (Begin word)
  show ?thesis
  proof (cases "trim word = []")
    case True
    with Begin assms(1,3) show ?thesis
      by (simp add: searchWord_begin_def)
  next
    case False
    with Begin assms(2) have "inflight = []" by simp
    with False Begin assms(3) show ?thesis
      by (auto simp: searchWord_begin_def search_state_ok_def mutually_exclusive_def)
  qed
next
  case (Settle word now outcome)
  with assms(3) obtain autoplay where m: "map_of inflight word = Some autoplay"
    and s': "s' = fst (searchWord_resume word now autoplay outcome s)"
    and f': "inflight' = remove1 (word, autoplay) inflight"
    by (auto split: option.splits)
  from m have "inflight \<noteq> []" by auto
  with assms(1) have e: "err s = None" and "length inflight \<le> 1"
    by (simp_all add: search_state_ok_def)
  with \<open>inflight \<noteq> []\<close> obtain p where "inflight = [p]"
    by (cases inflight) auto
  with m have "inflight = [(word, autoplay)]"
    by (cases p) (auto split: if_splits)
  with f' have "inflight' = []" by simp
  moreover have "mutually_exclusive s'"
    unfolding s' using e by (rule searchWord_resume_exclusive)
  moreover have "\<not> loading s'"
    unfolding s' by (rule searchWord_resume_loading)
  ultimately show ?thesis
    by (simp add: search_state_ok_def)
next
  case (Act x)
  with assms(3) have s': "s' = perform x s" and f': "inflight' = inflight" by auto
  show ?thesis
  proof (cases "starts_search (Act x)")
    case True
    with Act assms(2) have i: "inflight = []" by simp
    with assms(1) have "mutually_exclusive s \<and> \<not> loading s"
      by (simp add: search_state_ok_def)
    then have "mutually_exclusive (perform x s) \<and> \<not> loading (perform x s)"
      by (rule perform_settled)
    with i s' f' show ?thesis
      by (simp add: search_state_ok_def)
  next
    case False
    then have "data s' = data s \<and> err s' = err s \<and> loading s' = loading s"
      unfolding s' by (rule perform_frame)
    with assms(1) f' show ?thesis
      by (auto simp: search_state_ok_def mutually_exclusive_def split: if_splits)
  qed
qed

lemma run_one_at_a_time_ok:
  "search_state_ok c \<Longrightarrow> run_one_at_a_time evs c = Some c' \<Longrightarrow> search_state_ok c'"
proof (induction evs arbitrary: c)
  case Nil
  then show ?case by simp
next
  case (Cons ev evs)
  from Cons.prems(2) have g: "\<not> (starts_search ev \<and> snd c \<noteq> [])"
    by (auto split: if_splits)
  with Cons.prems(2) obtain c1 where s1: "step ev c = Some c1"
    and r: "run_one_at_a_time evs c1 = Some c'"
    by (auto split: if_splits option.splits)
  have "search_state_ok c1"
    using step_search_state_ok [of "fst c" "snd c" ev "fst c1" "snd c1"] Cons.prems(1) g s1
    by simp
  then show ?case using r by (rule Cons.IH)
qed

lemma run_one_at_a_time_prefix:
  "run_one_at_a_time (evs @ rest) c = Some c' \<Longrightarrow> \<exists>c1. run_one_at_a_time evs c = Some c1"
  by (auto simp: run_one_at_a_time_append split: option.splits)

text \<open>The two overlapping searches are not such a run.\<close>

lemma overlapping_not_one_at_a_time: "run_one_at_a_time overlapping (initial_app, []) = None"
  by code_simp

lemma busy_search_run: "run_one_at_a_time busy_search (initial_app, []) = Some (after_busy_search, [])"
  by code_simp

lemma busy_search_events: "run_events busy_search (initial_app, []) = Some (after_busy_search, [])"
  using busy_search_run by (rule run_one_at_a_time_is_run)

text \<open>
  C6, as the code has it. In every run in which no search starts while another one is in
  flight (any other operation may run while a search is in flight), from a state in which
  entries and error are not both present and nothing is loading, after every event of the
  run \<open>data\<close> and \<open>err\<close> are not both present, and \<open>loading\<close> is true exactly while
  the one call is in flight. In particular this holds after every sequence of operations
  that each run to their end, and after a search of a non-blank term that runs to its end
  from any state. And the part of \<open>searchWord\<close> that runs once the request has settled
  always ends with \<open>loading\<close> false, whether the request was rejected, came back with an
  error status or an unreadable body, or succeeded, in every run.
\<close>

theorem search_state_invariant:
  "(mutually_exclusive s0 \<and> \<not> loading s0 \<and> run_one_at_a_time (evs @ rest) (s0, []) = Some c
      \<longrightarrow> (\<exists>s inflight. run_one_at_a_time evs (s0, []) = Some (s, inflight)
             \<and> mutually_exclusive s \<and> loading s = (inflight \<noteq> []) \<and> length inflight \<le> 1))
   \<and> mutually_exclusive (perform_all ops initial_app)
   \<and> \<not> loading (perform_all ops initial_app)
   \<and> (trim word \<noteq> [] \<longrightarrow>
        mutually_exclusive (fst (searchWord_with url_of net now word s))
        \<and> \<not> loading (fst (searchWord_with url_of net now word s)))
   \<and> \<not> loading (fst (searchWord_resume word now autoplay outcome s))"
proof -
  have "\<exists>s inflight. run_one_at_a_time evs (s0, []) = Some (s, inflight)
             \<and> mutually_exclusive s \<and> loading s = (inflight \<noteq> []) \<and> length inflight \<le> 1"
    if a: "mutually_exclusive s0 \<and> \<not> loading s0 \<and> run_one_at_a_time (evs @ rest) (s0, []) = Some c"
  proof -
    from a obtain c1 where r: "run_one_at_a_time evs (s0, []) = Some c1"
      using run_one_at_a_time_prefix by blast
    from a have "search_state_ok (s0, [])"
      by (simp add: search_state_ok_idle)
    then have "search_state_ok c1"
      using r by (rule run_one_at_a_time_ok)
    then show ?thesis
      using r by (cases c1) (simp add: search_state_ok_def)
  qed
  then show ?thesis
    using perform_all_settled [OF initial_settled, of ops]
      searchWord_with_settled [of word url_of net now s]
      searchWord_resume_loading [of word now autoplay outcome s]
    by blast
qed

theorem search_state_invariant_witness:
  "mutually_exclusive initial_app \<and> \<not> loading initial_app
   \<and> run_one_at_a_time busy_search (initial_app, []) = Some (after_busy_search, [])
   \<and> mutually_exclusive after_busy_search \<and> \<not> loading after_busy_search
   \<and> trim ''Run'' \<noteq> []
   \<and> mutually_exclusive (fst (searchWord_with fetch_url down_service 1 ''Run'' showing_run))
   \<and> \<not> loading (fst (searchWord_with fetch_url down_service 1 ''Run'' showing_run))"
proof -
  note T = search_state_invariant [of initial_app busy_search "[]" "(after_busy_search, [])"
      "[]" "''Run''" fetch_url down_service 1 showing_run False Rejected]
  have "mutually_exclusive after_busy_search \<and> \<not> loading after_busy_search"
    using T [THEN conjunct1] initial_settled busy_search_run by simp
  moreover have "mutually_exclusive (fst (searchWord_with fetch_url down_service 1 ''Run'' showing_run))
      \<and> \<not> loading (fst (searchWord_with fetch_url down_service 1 ''Run'' showing_run))"
    using T [THEN conjunct2, THEN conjunct2, THEN conjunct2, THEN conjunct1] run_trim by blast
  ultimately show ?thesis
    using initial_settled busy_search_run run_trim by blast
qed

text \<open>
  The claim as written says \<open>never\<close>. Nothing cancels a search in flight: the search of
  \<open>zzz\<close> begins, the search of \<open>run\<close> begins (clearing \<open>err\<close>), the first one settles
  with status 404 (setting \<open>err\<close>), the second one settles with an entry (setting
  \<open>data\<close>, leaving \<open>err\<close>). Both are present in the end, with no call left in flight.
\<close>

theorem overlapping_searches_break_exclusion:
  "run_events overlapping (initial_app, []) = Some (after_overlap, [])
   \<and> data after_overlap = Some [run_entry]
   \<and> err after_overlap = Some (error_message ''zzz'')
   \<and> \<not> mutually_exclusive after_overlap"
  by code_simp

section \<open>A successful search and what happens while it is in flight\<close>

text \<open>A search that runs to its end at once, in either variant.\<close>

lemma search_at_once_succeeds:
  assumes "trim word \<noteq> []"
    and "net (url_of word) = Resolved (Response True (Some result))"
  shows "\<not> loading (fst (searchWord_with url_of net now word s))
     \<and> err (fst (searchWord_with url_of net now word s)) = None
     \<and> data (fst (searchWord_with url_of net now word s)) = Some result
     \<and> history (fst (searchWord_with url_of net now word s))
         = \<lparr>h_word = toLowerCase word, h_timestamp = now\<rparr>
             # take 49 (filter (\<lambda>i. h_word i \<noteq> toLowerCase word) (history s))
     \<and> filter (\<lambda>i. h_word i = toLowerCase word)
           (history (fst (searchWord_with url_of net now word s)))
         = [\<lparr>h_word = toLowerCase word, h_timestamp = now\<rparr>]"
proof -
  have eq: "fst (searchWord_with url_of net now word s)
      = s\<lparr>loading := False, err := None, mobileTab := MainTab, data := Some result,
          selectedMeaningIndex := 0, history := history_updater word now (history s)\<rparr>"
    using assms
    by (simp add: searchWord_with_def searchWord_begin_def searchWord_resume_def
        split: prod.splits)
  show ?thesis
    unfolding eq by (simp add: history_updater_once) (simp add: history_updater_front)
qed

text \<open>
  C1, as the code has it. Take a term whose trimmed form is not empty and whose lookup
  resolves with a success status and a readable body. From the begin of the search to the
  settling of its lookup, whatever other events lie in between and whatever the state
  before: after the settling \<open>loading\<close> is false, \<open>data\<close> is present and is the list the
  service returned (so it is non-empty exactly when the service returned an entry), and
  History starts with the record of the lower-cased term, which is its only record of that
  word; \<open>err\<close> is absent provided no failed lookup settled in between (only the begin of
  a search clears \<open>err\<close>, the success path leaves it as it is). The same holds, \<open>err\<close>
  absent included, of a search that runs to its end at once, in either variant.
\<close>

theorem successful_lookup:
  assumes "trim word \<noteq> []"
  shows "(run_events (Begin word # evs @ [Settle word now (Resolved (Response True (Some result)))])
            (s, inflight) = Some (s', inflight')
          \<longrightarrow> \<not> loading s' \<and> data s' = Some result
             \<and> (\<exists>rest. history s' = \<lparr>h_word = toLowerCase word, h_timestamp = now\<rparr> # rest)
             \<and> filter (\<lambda>i. h_word i = toLowerCase word) (history s')
                 = [\<lparr>h_word = toLowerCase word, h_timestamp = now\<rparr>]
             \<and> (list_all (\<lambda>ev. \<not> settles_failed ev) evs \<longrightarrow> err s' = None))
     \<and> (net (url_of word) = Resolved (Response True (Some result))
          \<longrightarrow> \<not> loading (fst (searchWord_with url_of net now word s))
             \<and> err (fst (searchWord_with url_of net now word s)) = None
             \<and> data (fst (searchWord_with url_of net now word s)) = Some result
             \<and> history (fst (searchWord_with url_of net now word s))
                 = \<lparr>h_word = toLowerCase word, h_timestamp = now\<rparr>
                     # take 49 (filter (\<lambda>i. h_word i \<noteq> toLowerCase word) (history s))
             \<and> filter (\<lambda>i. h_word i = toLowerCase word)
                   (history (fst (searchWord_with url_of net now word s)))
                 = [\<lparr>h_word = toLowerCase word, h_timestamp = now\<rparr>])
     \<and> err (fst (searchWord_resume word now autoplay (Resolved (Response True (Some result))) s))
         = err s"
proof (intro conjI impI)
  assume r: "run_events (Begin word # evs @ [Settle word now (Resolved (Response True (Some result)))])
            (s, inflight) = Some (s', inflight')"
  note F = search_in_flight_succeeds [OF assms r]
  from F show "\<not> loading s'" by (rule conjunct1)
  from F show "data s' = Some result" by blast
  from F show "\<exists>rest. history s' = \<lparr>h_word = toLowerCase word, h_timestamp = now\<rparr> # rest"
    by blast
  from F show "filter (\<lambda>i. h_word i = toLowerCase word) (history s')
                 = [\<lparr>h_word = toLowerCase word, h_timestamp = now\<rparr>]"
    by blast
  from F show "err s' = None" if "list_all (\<lambda>ev. \<not> settles_failed ev) evs"
    using that by blast
next
  assume n: "net (url_of word) = Resolved (Response True (Some result))"
  note A = search_at_once_succeeds [of word net url_of result now s, OF assms n]
  from A show "\<not> loading (fst (searchWord_with url_of net now word s))" by (rule conjunct1)
  from A show "err (fst (searchWord_with url_of net now word s)) = None" by blast
  from A show "data (fst (searchWord_with url_of net now word s)) = Some result" by blast
  from A show "history (fst (searchWord_with url_of net now word s))
                 = \<lparr>h_word = toLowerCase word, h_timestamp = now\<rparr>
                     # take 49 (filter (\<lambda>i. h_word i \<noteq> toLowerCase word) (history s))"
    by blast
  from A show "filter (\<lambda>i. h_word i = toLowerCase word)
                   (history (fst (searchWord_with url_of net now word s)))
                 = [\<lparr>h_word = toLowerCase word, h_timestamp = now\<rparr>]"
    by blast
next
  show "err (fst (searchWord_resume word now autoplay (Resolved (Response True (Some result))) s))
         = err s"
    by (simp add: searchWord_resume_success)
qed

lemma busy_search_quiet:
  "list_all (\<lambda>ev. \<not> settles_failed ev) [Act ClearHistory, Act (SetValue ''cat'')]"
  by simp

lemma busy_search_shape:
  "busy_search
     = Begin ''Run'' # [Act ClearHistory, Act (SetValue ''cat'')]
         @ [Settle ''Run'' 9 (Resolved (Response True (Some [run_entry])))]"
  by (simp add: busy_search_def)

theorem successful_lookup_witness:
  "trim ''Run'' \<noteq> []
   \<and> run_events busy_search (initial_app, []) = Some (after_busy_search, [])
   \<and> \<not> loading after_busy_search
   \<and> err after_busy_search = None
   \<and> data after_busy_search = Some [run_entry]
   \<and> filter (\<lambda>i. h_word i = ''run'') (history after_busy_search)
       = [\<lparr>h_word = ''run'', h_timestamp = 9\<rparr>]
   \<and> run_service (fetch_url ''Run'') = Resolved (Response True (Some [run_entry]))
   \<and> err (fst (searchWord_with fetch_url run_service 9 ''Run'' initial_app)) = None
   \<and> data (fst (searchWord_with fetch_url run_service 9 ''Run'' initial_app)) = Some [run_entry]
   \<and> history (fst (searchWord_with fetch_url run_service 9 ''Run'' initial_app))
       = [\<lparr>h_word = ''run'', h_timestamp = 9\<rparr>]"
proof -
  note T = successful_lookup [OF run_trim, of "[Act ClearHistory, Act (SetValue ''cat'')]" 9
      "[run_entry]" initial_app "[]" after_busy_search "[]" run_service fetch_url False]
  have r: "run_events (Begin ''Run'' # [Act ClearHistory, Act (SetValue ''cat'')]
         @ [Settle ''Run'' 9 (Resolved (Response True (Some [run_entry])))]) (initial_app, [])
      = Some (after_busy_search, [])"
    using busy_search_events by (simp only: busy_search_shape)
  have n: "run_service (fetch_url ''Run'') = Resolved (Response True (Some [run_entry]))"
    by (simp add: run_service_def)
  have h: "history initial_app = []"
    by (simp add: initial_app_def)
  from T [THEN conjunct1] r busy_search_quiet
  have one: "\<not> loading after_busy_search \<and> err after_busy_search = None
      \<and> data after_busy_search = Some [run_entry]
      \<and> filter (\<lambda>i. h_word i = ''run'') (history after_busy_search)
          = [\<lparr>h_word = ''run'', h_timestamp = 9\<rparr>]"
    by (simp only: lower_Run) blast
  from T [THEN conjunct2, THEN conjunct1] n
  have two: "err (fst (searchWord_with fetch_url run_service 9 ''Run'' initial_app)) = None
      \<and> data (fst (searchWord_with fetch_url run_service 9 ''Run'' initial_app)) = Some [run_entry]
      \<and> history (fst (searchWord_with fetch_url run_service 9 ''Run'' initial_app))
          = [\<lparr>h_word = ''run'', h_timestamp = 9\<rparr>]"
    by (simp add: lower_Run h)
  show ?thesis
    using run_trim busy_search_events one n two by blast
qed

text \<open>
  The claim as written asks for a non-empty \<open>data\<close> and an absent \<open>err\<close> after every
  successful search. A service that answers the request for \<open>Run\<close> with a success status
  and the empty list is a successful lookup of a non-empty term, and \<open>data\<close> is then the
  empty list. And when the failed lookup of \<open>zzz\<close> settles while the search of \<open>run\<close>
  is in flight, the successful search of \<open>run\<close> completes with the error of \<open>zzz\<close> still
  present.
\<close>

theorem successful_lookup_not_as_stated:
  "trim ''Run'' \<noteq> []
   \<and> empty_service (fetch_url ''Run'') = Resolved (Response True (Some []))
   \<and> data (fst (searchWord empty_service 9 ''Run'' initial_app)) = Some []
   \<and> run_events overlapping (initial_app, []) = Some (after_overlap, [])
   \<and> err after_overlap = Some (error_message ''zzz'')"
  by code_simp

section \<open>The History collection\<close>

lemma record_all_snoc:
  "record_all (ws @ [(word, now)]) h = history_updater word now (record_all ws h)"
  by (induction ws h rule: record_all.induct) simp_all

lemma take_filter_one:
  "distinct (map f xs) \<Longrightarrow>
   take n (filter (\<lambda>y. f y \<noteq> k) (take (Suc n) xs)) = take n (filter (\<lambda>y. f y \<noteq> k) xs)"
proof (induction xs arbitrary: n)
  case Nil
  show ?case by simp
next
  case (Cons x xs)
  show ?case
  proof (cases "f x = k")
    case True
    from Cons.prems have "f x \<notin> f ` set xs" by simp
    with True have "\<forall>y \<in> set xs. f y \<noteq> k" by blast
    then have "filter (\<lambda>y. f y \<noteq> k) xs = xs"
      and "filter (\<lambda>y. f y \<noteq> k) (take n xs) = take n xs"
      by (auto simp: filter_id_conv dest: in_set_takeD)
    with True show ?thesis by simp
  next
    case False
    show ?thesis
    proof (cases n)
      case 0
      then show ?thesis by simp
    next
      case (Suc m)
      from Cons.prems have "distinct (map f xs)" by simp
      then have "take m (filter (\<lambda>y. f y \<noteq> k) (take (Suc m) xs)) = take m (filter (\<lambda>y. f y \<noteq> k) xs)"
        by (rule Cons.IH)
      with False Suc show ?thesis by simp
    qed
  qed
qed

lemma distinct_newest_per_word: "distinct (map h_word (newest_per_word xs))"
proof (induction xs)
  case Nil
  show ?case by simp
next
  case (Cons x xs)
  then have "distinct (map h_word (filter (\<lambda>y. h_word y \<noteq> h_word x) (newest_per_word xs)))"
    by (simp add: distinct_map_filter)
  moreover have "h_word x \<notin> h_word ` set (filter (\<lambda>y. h_word y \<noteq> h_word x) (newest_per_word xs))"
    by auto
  ultimately show ?case by simp
qed

lemma record_all_newest:
  "record_all ws [] = take 50 (newest_per_word (rev (map item_of ws)))"
proof (induction ws rule: rev_induct)
  case Nil
  show ?case by simp
next
  case (snoc p ws)
  obtain word now where p: "p = (word, now)" by (cases p)
  let ?D = "newest_per_word (rev (map item_of ws))"
  have "record_all (ws @ [p]) [] = history_updater word now (take 50 ?D)"
    by (simp add: p record_all_snoc snoc.IH)
  also have "\<dots> = item_of p # take 49 (filter (\<lambda>i. h_word i \<noteq> toLowerCase word) (take (Suc 49) ?D))"
    by (simp add: history_updater_front p item_of_def)
  also have "\<dots> = item_of p # take 49 (filter (\<lambda>i. h_word i \<noteq> toLowerCase word) ?D)"
    by (simp only: take_filter_one [OF distinct_newest_per_word])
  also have "\<dots> = take 50 (newest_per_word (rev (map item_of (ws @ [p]))))"
    by (simp add: p item_of_def)
  finally show ?case .
qed

lemma history_updater_ok:
  assumes "history_ok h"
  shows "history_ok (history_updater word now h)"
proof -
  let ?f = "filter (\<lambda>i. h_word i \<noteq> toLowerCase word) h"
  from assms have d: "distinct (map h_word h)" and l: "list_all (\<lambda>i. toLowerCase (h_word i) = h_word i) h"
    by (simp_all add: history_ok_def)
  have "distinct (map h_word (take 49 ?f))"
    using d by (simp add: distinct_map_filter take_map [symmetric])
  moreover have "toLowerCase word \<notin> h_word ` set (take 49 ?f)"
    by (auto dest: in_set_takeD)
  moreover have "list_all (\<lambda>i. toLowerCase (h_word i) = h_word i) (take 49 ?f)"
    using l by (auto simp: list_all_iff dest: in_set_takeD)
  ultimately show ?thesis
    by (simp add: history_ok_def history_updater_front toLowerCase_idem)
qed

lemma record_all_ok: "history_ok h \<Longrightarrow> history_ok (record_all ws h)"
  by (induction ws h rule: record_all.induct) (simp_all add: history_updater_ok)

lemma history_ok_Nil: "history_ok []"
  by (simp add: history_ok_def)

lemma history_ok_case_insensitive:
  assumes "history_ok h" and "a \<in> set h" and "b \<in> set h"
    and "toLowerCase (h_word a) = toLowerCase (h_word b)"
  shows "a = b"
proof -
  from assms(1) have "distinct (map h_word h)"
    and "\<forall>i \<in> set h. toLowerCase (h_word i) = h_word i"
    by (simp_all add: history_ok_def list_all_iff)
  with assms(2-4) have "h_word a = h_word b" by metis
  with \<open>distinct (map h_word h)\<close> assms(2,3) show ?thesis
    by (meson distinct_map inj_onD)
qed

lemma perform_history_ok:
  assumes "history_ok (history s)"
  shows "history_ok (history (perform x s))"
proof (cases x)
  case (Search word now outcome)
  then show ?thesis
    using assms
    by (auto simp: searchWord_def searchWord_with_def searchWord_begin_def searchWord_resume_def
        history_updater_ok split: prod.splits fetch_outcome.splits response.splits bool.splits
        option.splits)
next
  case (ToggleFavorite now)
  then show ?thesis
    using assms toggleFavorite_same_search_state [of now s]
    by (auto split: sum.splits)
qed (use assms in \<open>simp_all add: removeFromFavorites_def history_ok_Nil\<close>)

lemma perform_all_history_ok:
  "history_ok (history s) \<Longrightarrow> history_ok (history (perform_all ops s))"
  by (induction ops arbitrary: s) (simp_all add: perform_history_ok)

lemma run_then_Run:
  "record_all [(''run'', t1), (''Run'', t2)] [] = [\<lparr>h_word = ''run'', h_timestamp = t2\<rparr>]"
proof -
  have "toLowerCase ''run'' = ''run''" by code_simp
  then show ?thesis
    by (simp add: history_updater_front lower_Run)
qed

text \<open>
  C3. After every sequence of successful searches, starting from the empty History, the
  collection has at most 50 records, no two records with the same word, and no two
  different records whose words are equal up to case; it is, newest first, the sequence of
  the searches with only the newest record of each lower-cased word kept, cut to 50. The
  invariant (at most 50, one record per word, words in lower case) is kept from any
  History that has it, and holds after every sequence of controller operations from the
  initial state. One insertion puts the new record at index 0 and drops every earlier
  record of that word, so exactly one record of it remains; \<open>run\<close> and then \<open>Run\<close>
  leave the single record \<open>run\<close> with the second timestamp.
\<close>

theorem history_collection:
  "length (record_all ws []) \<le> 50
   \<and> distinct (map h_word (record_all ws []))
   \<and> (\<forall>a \<in> set (record_all ws []). \<forall>b \<in> set (record_all ws []).
         toLowerCase (h_word a) = toLowerCase (h_word b) \<longrightarrow> a = b)
   \<and> record_all ws [] = take 50 (newest_per_word (rev (map item_of ws)))
   \<and> (history_ok h \<longrightarrow> history_ok (record_all ws h))
   \<and> history_ok (history (perform_all ops initial_app))
   \<and> history_updater word now prev
       = \<lparr>h_word = toLowerCase word, h_timestamp = now\<rparr>
           # take 49 (filter (\<lambda>i. h_word i \<noteq> toLowerCase word) prev)
   \<and> filter (\<lambda>i. h_word i = toLowerCase word) (history_updater word now prev)
       = [\<lparr>h_word = toLowerCase word, h_timestamp = now\<rparr>]
   \<and> record_all [(''run'', t1), (''Run'', t2)] [] = [\<lparr>h_word = ''run'', h_timestamp = t2\<rparr>]"
proof -
  have ok: "history_ok (record_all ws [])"
    using history_ok_Nil by (rule record_all_ok)
  have init: "history_ok (history initial_app)"
    by (simp add: initial_app_def history_ok_Nil)
  have 1: "length (record_all ws []) \<le> 50" and 2: "distinct (map h_word (record_all ws []))"
    using ok by (simp_all add: history_ok_def)
  have 3: "\<forall>a \<in> set (record_all ws []). \<forall>b \<in> set (record_all ws []).
         toLowerCase (h_word a) = toLowerCase (h_word b) \<longrightarrow> a = b"
    using history_ok_case_insensitive [OF ok] by blast
  have 5: "history_ok h \<longrightarrow> history_ok (record_all ws h)"
    by (simp add: record_all_ok)
  have 6: "history_ok (history (perform_all ops initial_app))"
    using init by (rule perform_all_history_ok)
  show ?thesis
    using 1 2 3 record_all_newest [of ws] 5 6 history_updater_front [of word now prev]
      history_updater_once [of word now prev] run_then_Run [of t1 t2]
    by (intro conjI)
qed

theorem history_collection_witness:
  "history_ok []
   \<and> history_ok (record_all [(''run'', 1), (''Run'', 2)] [])
   \<and> length (record_all [(''run'', 1), (''Run'', 2)] []) \<le> 50
   \<and> distinct (map h_word (record_all [(''run'', 1), (''Run'', 2)] []))
   \<and> record_all [(''run'', 1), (''Run'', 2)] [] = [\<lparr>h_word = ''run'', h_timestamp = 2\<rparr>]
   \<and> history_ok (history (perform_all [Search ''run'' 1 (run_service []), ClearHistory] initial_app))"
proof -
  note h = history_collection [of "[(''run'', 1), (''Run'', 2)]" "[]"
      "[Search ''run'' 1 (run_service []), ClearHistory]" "''Run''" 2 "[]" 1 2]
  show ?thesis
    using h history_ok_Nil by blast
qed

end
